theory Spec2Isabelle
  imports Main "HOL-Library.Sublist" "HOL-Library.Word"
begin

section \<open>goconf: an INI-style configuration file behind a section cache\<close>

text \<open>
  A shallow embedding of \<^verbatim>\<open>goconf.go\<close>. Go strings are byte sequences, so a string is a
  \<^typ>\<open>string\<close> (a list of 8-bit characters). The two maps of the source,
  \<^verbatim>\<open>map[string]string\<close> and \<^verbatim>\<open>map[string]map[string]string\<close>, are partial functions.
  Every error the source builds with \<^verbatim>\<open>fmt.Errorf\<close>, and the one \<^verbatim>\<open>os.Open\<close> hands back,
  is a constructor of \<open>error\<close>.
\<close>

subsection \<open>Data\<close>

type_synonym kvmap = "string \<rightharpoonup> string"

type_synonym conf = "string \<rightharpoonup> kvmap"

datatype error =
    OpenError                 \<comment> \<open>\<^verbatim>\<open>os.Open\<close> failed\<close>
  | InvalidConfigLine string  \<comment> \<open>\<^verbatim>\<open>invalid config line: [%s]\<close>\<close>
  | NoSuchSection string      \<comment> \<open>\<^verbatim>\<open>no such section: %q\<close>\<close>
  | TtlNotPositive            \<comment> \<open>\<^verbatim>\<open>ttl must be greater than 0\<close>\<close>
  | NilCongomap               \<comment> \<open>a method call on the nil \<^verbatim>\<open>cgm\<close> of a Config not built by New\<close>
  | Closed                    \<comment> \<open>the cache's error after Close\<close>

text \<open>
  The file system as the parser sees it: a path that \<^verbatim>\<open>os.Open\<close> rejects is \<open>None\<close>; an
  opened file is the sequence of tokens that \<^verbatim>\<open>bufio.Scanner\<close> delivers, one per line, line
  terminators removed. The source never looks at \<^verbatim>\<open>buf.Err()\<close>, so a scanner that gives up
  simply ends the sequence.
\<close>

type_synonym filesystem = "string \<Rightarrow> string list option"

definition DefaultSectionName :: string where
  "DefaultSectionName = ''General''"

subsection \<open>strings.TrimSpace\<close>

text \<open>
  \<^verbatim>\<open>strings.TrimSpace\<close> removes leading and trailing white space as Unicode defines it, and
  reads the bytes as UTF-8. The white-space code points are U+0009 to U+000D, U+0020, U+0085,
  U+00A0, U+1680, U+2000 to U+200A, U+2028, U+2029, U+202F, U+205F and U+3000; below are
  their UTF-8 encodings. A byte sequence that is not one of them decodes to some other rune
  (or to the error rune, one byte wide) and stops the trimming.
\<close>

definition space_runes :: "string list" where
  "space_runes =
    [[CHR 0x09], [CHR 0x0A], [CHR 0x0B], [CHR 0x0C], [CHR 0x0D], [CHR 0x20],
     [CHR 0xC2, CHR 0x85], [CHR 0xC2, CHR 0xA0],
     [CHR 0xE1, CHR 0x9A, CHR 0x80],
     [CHR 0xE2, CHR 0x80, CHR 0x80], [CHR 0xE2, CHR 0x80, CHR 0x81],
     [CHR 0xE2, CHR 0x80, CHR 0x82], [CHR 0xE2, CHR 0x80, CHR 0x83],
     [CHR 0xE2, CHR 0x80, CHR 0x84], [CHR 0xE2, CHR 0x80, CHR 0x85],
     [CHR 0xE2, CHR 0x80, CHR 0x86], [CHR 0xE2, CHR 0x80, CHR 0x87],
     [CHR 0xE2, CHR 0x80, CHR 0x88], [CHR 0xE2, CHR 0x80, CHR 0x89],
     [CHR 0xE2, CHR 0x80, CHR 0x8A],
     [CHR 0xE2, CHR 0x80, CHR 0xA8], [CHR 0xE2, CHR 0x80, CHR 0xA9],
     [CHR 0xE2, CHR 0x80, CHR 0xAF],
     [CHR 0xE2, CHR 0x81, CHR 0x9F],
     [CHR 0xE3, CHR 0x80, CHR 0x80]]"

text \<open>The width in bytes of the white-space rune a string starts with; 0 when there is none.\<close>

definition space_width :: "string list \<Rightarrow> string \<Rightarrow> nat" where
  "space_width runes s = (case find (\<lambda>r. prefix r s) runes of None \<Rightarrow> 0 | Some r \<Rightarrow> length r)"

lemma space_width_le: "space_width runes s \<le> length s"
  by (auto simp: space_width_def find_Some_iff prefix_length_le split: option.splits)

function TrimLeft :: "string list \<Rightarrow> string \<Rightarrow> string" where
  "TrimLeft runes s =
     (if space_width runes s = 0 then s else TrimLeft runes (drop (space_width runes s) s))"
  by pat_completeness auto
termination
proof (relation "measure (\<lambda>(runes, s). length s)")
  show "wf (measure (\<lambda>(runes, s). length s))" by simp
next
  fix runes :: "string list" and s :: string
  assume "space_width runes s \<noteq> 0"
  moreover have "space_width runes s \<le> length s" by (rule space_width_le)
  ultimately show "((runes, drop (space_width runes s) s), (runes, s))
      \<in> measure (\<lambda>(runes, s). length s)"
    by simp
qed

declare TrimLeft.simps [simp del]

text \<open>
  Trailing white space is found by decoding backwards; every encoding above has its only lead
  byte first, so the last rune is white space exactly when one of the encodings is a suffix.
\<close>

definition TrimSpace :: "string \<Rightarrow> string" where
  "TrimSpace s = rev (TrimLeft (map rev space_runes) (rev (TrimLeft space_runes s)))"

subsection \<open>The two regular expressions\<close>

text \<open>
  \<^verbatim>\<open>sectionRe = ^\[([^\]]+)\]$\<close>. After the opening bracket the class \<^verbatim>\<open>[^\]]+\<close> takes
  every byte up to the first \<^verbatim>\<open>]\<close> (it cannot pass one, and giving bytes back would leave
  a byte that is not \<^verbatim>\<open>]\<close> for the literal); that bracket has to be the last byte. The result
  is the sub-match \<^verbatim>\<open>md[1]\<close>.
\<close>

definition sectionRe :: "string \<Rightarrow> string option" where
  "sectionRe line =
     (case line of
        [] \<Rightarrow> None
      | c # rest \<Rightarrow>
          (let name = takeWhile (\<lambda>x. x \<noteq> CHR '']'') rest in
           if c = CHR ''['' \<and> name \<noteq> [] \<and> drop (length name) rest = '']''
           then Some name else None))"

text \<open>The class \<^verbatim>\<open>\s\<close> of Go's regexp: tab, line feed, form feed, carriage return, space.\<close>

definition re_space :: "char \<Rightarrow> bool" where
  "re_space c = (c = CHR 0x09 \<or> c = CHR 0x0A \<or> c = CHR 0x0C \<or> c = CHR 0x0D \<or> c = CHR 0x20)"

text \<open>
  \<^verbatim>\<open>\s*(.+)$\<close> on the text after the delimiter. \<^verbatim>\<open>\s*\<close> is greedy, and \<^verbatim>\<open>.\<close> matches any
  byte but a line feed. When something is left after the leading white space, it is the
  value, unless a line feed is in it (then no split matches). When the text is white space
  only, \<^verbatim>\<open>\s*\<close> gives its last byte back to \<^verbatim>\<open>.+\<close>.
\<close>

definition match_value :: "string \<Rightarrow> string option" where
  "match_value r =
     (let v = dropWhile re_space r in
      if v \<noteq> [] then (if CHR 0x0A \<in> set v then None else Some v)
      else if r \<noteq> [] \<and> last r \<noteq> CHR 0x0A then Some [last r]
      else None)"

text \<open>
  \<^verbatim>\<open>keyValRe = ^([^=]+)\s*=\s*(.+)$\<close>. Neither \<^verbatim>\<open>[^=]+\<close> nor \<^verbatim>\<open>\s*\<close> can pass a
  \<^verbatim>\<open>=\<close>, so the literal matches the first one of the line; \<^verbatim>\<open>[^=]+\<close> is greedy and the
  rest of the match does not depend on where it stops, so the first group is everything
  before that \<^verbatim>\<open>=\<close>, white space included. The result is \<^verbatim>\<open>(md[1], md[2])\<close>.
\<close>

definition keyValRe :: "string \<Rightarrow> (string \<times> string) option" where
  "keyValRe line =
     (let key = takeWhile (\<lambda>x. x \<noteq> CHR ''='') line in
      if key = [] then None
      else (case drop (length key) line of
              [] \<Rightarrow> None
            | eq # r \<Rightarrow> (case match_value r of None \<Rightarrow> None | Some v \<Rightarrow> Some (key, v))))"

subsection \<open>parseConfigFile\<close>

text \<open>
  The loop of \<^verbatim>\<open>parseConfigFile\<close> over the scanned lines, with the table and the current
  section as its state. The source returns the table built so far together with the error.
\<close>

fun parse_lines :: "conf \<Rightarrow> string \<Rightarrow> string list \<Rightarrow> conf \<times> error option" where
  "parse_lines conf section [] = (conf, None)"
| "parse_lines conf section (l # ls) =
     (let line = TrimSpace (takeWhile (\<lambda>c. c \<noteq> CHR '';'') l) in
      if length line = 0 then parse_lines conf section ls
      else (case sectionRe line of
              Some name \<Rightarrow> parse_lines conf name ls
            | None \<Rightarrow>
                (case keyValRe line of
                   Some (k, v) \<Rightarrow>
                     parse_lines
                       (conf(section \<mapsto>
                          (case conf section of None \<Rightarrow> Map.empty | Some m \<Rightarrow> m)(k \<mapsto> v)))
                       section ls
                 | None \<Rightarrow> (conf, Some (InvalidConfigLine line)))))"

definition parseConfigFile :: "filesystem \<Rightarrow> string \<Rightarrow> conf \<times> error option" where
  "parseConfigFile fs pathname =
     (case fs pathname of
        None \<Rightarrow> (Map.empty, Some OpenError)
      | Some lines \<Rightarrow>
          parse_lines (Map.empty(DefaultSectionName \<mapsto> Map.empty)) DefaultSectionName lines)"

subsection \<open>The cache behind a Config\<close>

text \<open>
  Modelled from the spec: the Cache Core, \<^verbatim>\<open>gopkg.in/karrick/congomap.v1\<close>, which the source
  imports and which is not among its files. The spec's section 4.1 gives its contract: a
  store keyed by section name; \<^verbatim>\<open>Get\<close> (the source calls it \<^verbatim>\<open>LoadStore\<close>) returns the cached
  value when it is present and not expired, otherwise calls the loader, caches a loaded value
  with a fresh time stamp, and caches nothing on a loader error; an entry is expired when a
  TTL is set and its age has reached it; after \<^verbatim>\<open>Close\<close> every \<^verbatim>\<open>Get\<close> fails with the closed
  error. This is the cache as one caller at a time sees it: the marker of a load in flight
  plays no part. The clock is the argument \<open>now\<close>, in nanoseconds.
\<close>

record cache_entry =
  cached :: kvmap
  inserted :: int

record congomap =
  entries :: "string \<rightharpoonup> cache_entry"
  cttl :: int
  is_closed :: bool

datatype cgm_setter = Lookup | CacheTTL "64 word"

fun apply_cgm_setter :: "congomap \<Rightarrow> cgm_setter \<Rightarrow> congomap" where
  "apply_cgm_setter g Lookup = g"
| "apply_cgm_setter g (CacheTTL d) = g\<lparr>cttl := sint d\<rparr>"

definition NewSyncAtomicMap :: "cgm_setter list \<Rightarrow> error + congomap" where
  "NewSyncAtomicMap cgms =
     Inr (foldl apply_cgm_setter \<lparr>entries = Map.empty, cttl = 0, is_closed = False\<rparr> cgms)"

definition Load :: "congomap \<Rightarrow> int \<Rightarrow> string \<Rightarrow> kvmap option" where
  "Load g now key =
     (case entries g key of
        None \<Rightarrow> None
      | Some e \<Rightarrow> if 0 < cttl g \<and> cttl g \<le> now - inserted e then None else Some (cached e))"

definition LoadStore ::
    "(string \<Rightarrow> error + kvmap) \<Rightarrow> congomap \<Rightarrow> int \<Rightarrow> string \<Rightarrow> (error + kvmap) \<times> congomap" where
  "LoadStore lookup g now key =
     (if is_closed g then (Inl Closed, g)
      else (case Load g now key of
              Some v \<Rightarrow> (Inr v, g)
            | None \<Rightarrow>
                (case lookup key of
                   Inl e \<Rightarrow> (Inl e, g)
                 | Inr v \<Rightarrow> (Inr v, g\<lparr>entries := (entries g)(key \<mapsto> \<lparr>cached = v, inserted = now\<rparr>)\<rparr>))))"

definition cgm_Close :: "congomap \<Rightarrow> error option \<times> congomap" where
  "cgm_Close g = (None, g\<lparr>entries := Map.empty, is_closed := True\<rparr>)"

subsection \<open>Config, New, TTL, Section, Close\<close>

text \<open>
  \<^verbatim>\<open>cgm\<close> is nil until New has built the cache. A setter mutates the Config it is given and
  returns an error or nil; New drops the Config when a setter fails.
\<close>

record Config =
  pathname :: string
  cgm :: "congomap option"
  ttl :: "64 word"

type_synonym ConfigSetter = "Config \<Rightarrow> error + Config"

definition TTL :: "64 word \<Rightarrow> ConfigSetter" where
  "TTL d = (\<lambda>c. if sint d \<le> 0 then Inl TtlNotPositive else Inr (c\<lparr>ttl := d\<rparr>))"

fun apply_setters :: "Config \<Rightarrow> ConfigSetter list \<Rightarrow> error + Config" where
  "apply_setters c [] = Inr c"
| "apply_setters c (setter # setters) =
     (case setter c of Inl err \<Rightarrow> Inl err | Inr c' \<Rightarrow> apply_setters c' setters)"

definition New :: "string \<Rightarrow> ConfigSetter list \<Rightarrow> error + Config" where
  "New path setters =
     (case apply_setters \<lparr>pathname = path, cgm = None, ttl = 0\<rparr> setters of
        Inl err \<Rightarrow> Inl err
      | Inr c \<Rightarrow>
          (let cgms = [Lookup] @ (if 0 < sint (ttl c) then [CacheTTL (ttl c)] else []) in
           case NewSyncAtomicMap cgms of
             Inl err \<Rightarrow> Inl err
           | Inr g \<Rightarrow> Inr (c\<lparr>cgm := Some g\<rparr>)))"

definition lookupSection :: "filesystem \<Rightarrow> Config \<Rightarrow> string \<Rightarrow> error + kvmap" where
  "lookupSection fs c section =
     (case parseConfigFile fs (pathname c) of
        (conf, Some err) \<Rightarrow> Inl err
      | (conf, None) \<Rightarrow>
          (case conf section of
             None \<Rightarrow> Inl (NoSuchSection section)
           | Some sect \<Rightarrow> Inr sect))"

text \<open>
  A call of \<^verbatim>\<open>Section\<close> at time \<open>now\<close>, with the file system as it is then: the result and
  the Config after the call.
\<close>

definition Section :: "filesystem \<Rightarrow> int \<Rightarrow> Config \<Rightarrow> string \<Rightarrow> (error + kvmap) \<times> Config" where
  "Section fs now c section =
     (case cgm c of
        None \<Rightarrow> (Inl NilCongomap, c)
      | Some g \<Rightarrow>
          (case LoadStore (lookupSection fs c) g now section of
             (Inl err, g') \<Rightarrow> (Inl err, c\<lparr>cgm := Some g'\<rparr>)
           | (Inr dict, g') \<Rightarrow> (Inr dict, c\<lparr>cgm := Some g'\<rparr>)))"

definition Close :: "Config \<Rightarrow> error option \<times> Config" where
  "Close c =
     (case cgm c of
        None \<Rightarrow> (Some NilCongomap, c)
      | Some g \<Rightarrow> (case cgm_Close g of (err, g') \<Rightarrow> (err, c\<lparr>cgm := Some g'\<rparr>)))"

text \<open>The Config after a sequence of \<^verbatim>\<open>Section\<close> calls, each with its time and section name.\<close>

fun Sections :: "filesystem \<Rightarrow> Config \<Rightarrow> (int \<times> string) list \<Rightarrow> Config" where
  "Sections fs c [] = c"
| "Sections fs c ((now, name) # calls) = Sections fs (snd (Section fs now c name)) calls"

subsection \<open>Vocabulary for the statements\<close>

text \<open>What the loop body makes of one scanned line.\<close>

datatype line_kind = Blank | Header string | KeyVal string string | Invalid string

definition classify :: "string \<Rightarrow> line_kind" where
  "classify l =
     (let line = TrimSpace (takeWhile (\<lambda>c. c \<noteq> CHR '';'') l) in
      if length line = 0 then Blank
      else (case sectionRe line of
              Some name \<Rightarrow> Header name
            | None \<Rightarrow> (case keyValRe line of Some (k, v) \<Rightarrow> KeyVal k v | None \<Rightarrow> Invalid line)))"

definition is_header :: "string \<Rightarrow> bool" where
  "is_header l = (case classify l of Header name \<Rightarrow> True | _ \<Rightarrow> False)"

definition is_invalid :: "string \<Rightarrow> bool" where
  "is_invalid l = (case classify l of Invalid line \<Rightarrow> True | _ \<Rightarrow> False)"

definition sets_key :: "string \<Rightarrow> string \<Rightarrow> bool" where
  "sets_key k l = (case classify l of KeyVal k' v \<Rightarrow> k' = k | _ \<Rightarrow> False)"

text \<open>The assignment \<^verbatim>\<open>conf[section][k] = v\<close>, with the inner map made when it is missing.\<close>

definition store :: "conf \<Rightarrow> string \<Rightarrow> string \<Rightarrow> string \<Rightarrow> conf" where
  "store conf section k v =
     conf(section \<mapsto> (case conf section of None \<Rightarrow> Map.empty | Some m \<Rightarrow> m)(k \<mapsto> v))"

text \<open>The current section once the loop has passed the given lines.\<close>

fun section_after :: "string \<Rightarrow> string list \<Rightarrow> string" where
  "section_after section [] = section"
| "section_after section (l # ls) =
     (case classify l of Header name \<Rightarrow> section_after name ls | _ \<Rightarrow> section_after section ls)"

text \<open>
  The sections under which the lines store a pair, in order: the current section at each
  key-value line, up to the first invalid line.
\<close>

fun stored_under :: "string \<Rightarrow> string list \<Rightarrow> string list" where
  "stored_under section [] = []"
| "stored_under section (l # ls) =
     (case classify l of
        Blank \<Rightarrow> stored_under section ls
      | Header name \<Rightarrow> stored_under name ls
      | KeyVal k v \<Rightarrow> section # stored_under section ls
      | Invalid line \<Rightarrow> [])"

text \<open>
  The pairs that the lines store under section \<open>a\<close>, in order, and what a run of such
  assignments makes of the entry of \<open>a\<close> in the table.
\<close>

fun pairs_under :: "string \<Rightarrow> string \<Rightarrow> string list \<Rightarrow> (string \<times> string) list" where
  "pairs_under a section [] = []"
| "pairs_under a section (l # ls) =
     (case classify l of
        Blank \<Rightarrow> pairs_under a section ls
      | Header name \<Rightarrow> pairs_under a name ls
      | KeyVal k v \<Rightarrow> (if section = a then [(k, v)] else []) @ pairs_under a section ls
      | Invalid line \<Rightarrow> [])"

fun apply_pairs :: "kvmap option \<Rightarrow> (string \<times> string) list \<Rightarrow> kvmap option" where
  "apply_pairs entry [] = entry"
| "apply_pairs entry ((k, v) # ps) =
     apply_pairs (Some ((case entry of None \<Rightarrow> Map.empty | Some m \<Rightarrow> m)(k \<mapsto> v))) ps"

text \<open>
  Every cached value is what the loader returns now: the state of a cache filled from a file
  that has not changed since.
\<close>

definition consistent :: "filesystem \<Rightarrow> Config \<Rightarrow> bool" where
  "consistent fs c =
     (case cgm c of
        None \<Rightarrow> False
      | Some g \<Rightarrow>
          \<not> is_closed g \<and>
          (\<forall>key e. entries g key = Some e \<longrightarrow> lookupSection fs c key = Inr (cached e)))"

section \<open>Properties\<close>

subsection \<open>The loop\<close>

lemma parse_lines_Cons:
  "parse_lines conf sec (l # ls) =
     (case classify l of
        Blank \<Rightarrow> parse_lines conf sec ls
      | Header name \<Rightarrow> parse_lines conf name ls
      | KeyVal k v \<Rightarrow> parse_lines (store conf sec k v) sec ls
      | Invalid line \<Rightarrow> (conf, Some (InvalidConfigLine line)))"
  by (simp add: classify_def store_def Let_def split: option.splits)

declare parse_lines.simps(2) [simp del]

lemma parse_lines_append:
  "parse_lines conf sec (xs @ ys) =
     (case parse_lines conf sec xs of
        (conf', Some err) \<Rightarrow> (conf', Some err)
      | (conf', None) \<Rightarrow> parse_lines conf' (section_after sec xs) ys)"
  by (induction xs arbitrary: conf sec)
     (auto simp: parse_lines_Cons split: line_kind.splits prod.splits option.splits)

lemma store_dom: "dom (store conf sec k v) = insert sec (dom conf)"
  by (auto simp: store_def)

lemma parse_lines_dom_mono: "dom conf \<subseteq> dom (fst (parse_lines conf sec xs))"
proof (induction xs arbitrary: conf sec)
  case Nil
  show ?case by simp
next
  case (Cons l ls)
  show ?case
  proof (cases "classify l")
    case (KeyVal k v)
    have "dom conf \<subseteq> dom (store conf sec k v)" by (auto simp: store_dom)
    also have "\<dots> \<subseteq> dom (fst (parse_lines (store conf sec k v) sec ls))" by (rule Cons.IH)
    finally show ?thesis using KeyVal by (simp add: parse_lines_Cons)
  qed (use Cons.IH in \<open>simp_all add: parse_lines_Cons\<close>)
qed

lemma parse_lines_invalid:
  "\<not> list_all (\<lambda>l. \<not> is_invalid l) xs \<Longrightarrow>
   \<exists>l line. l \<in> set xs \<and> classify l = Invalid line \<and>
     snd (parse_lines conf sec xs) = Some (InvalidConfigLine line)"
proof (induction xs arbitrary: conf sec)
  case Nil
  then show ?case by simp
next
  case (Cons l ls)
  show ?case
  proof (cases "classify l")
    case (Invalid line)
    then show ?thesis by (auto simp: parse_lines_Cons)
  next
    case Blank
    with Cons.prems have "\<not> list_all (\<lambda>l. \<not> is_invalid l) ls" by (simp add: is_invalid_def)
    from Cons.IH [OF this, of conf sec] Blank show ?thesis
      by (auto simp: parse_lines_Cons)
  next
    case (Header name)
    with Cons.prems have "\<not> list_all (\<lambda>l. \<not> is_invalid l) ls" by (simp add: is_invalid_def)
    from Cons.IH [OF this, of conf name] Header show ?thesis
      by (auto simp: parse_lines_Cons)
  next
    case (KeyVal k v)
    with Cons.prems have "\<not> list_all (\<lambda>l. \<not> is_invalid l) ls" by (simp add: is_invalid_def)
    from Cons.IH [OF this, of "store conf sec k v" sec] KeyVal show ?thesis
      by (auto simp: parse_lines_Cons)
  qed
qed

lemma parse_lines_valid:
  "list_all (\<lambda>l. \<not> is_invalid l) xs \<Longrightarrow> snd (parse_lines conf sec xs) = None"
proof (induction xs arbitrary: conf sec)
  case Nil
  show ?case by simp
next
  case (Cons l ls)
  then show ?case
    by (cases "classify l") (simp_all add: parse_lines_Cons is_invalid_def)
qed

lemma parse_lines_dom:
  "dom (fst (parse_lines conf sec xs)) = dom conf \<union> set (stored_under sec xs)"
proof (induction xs arbitrary: conf sec)
  case Nil
  show ?case by simp
next
  case (Cons l ls)
  show ?case
  proof (cases "classify l")
    case (KeyVal k v)
    from Cons.IH [of "store conf sec k v" sec] KeyVal show ?thesis
      by (simp add: parse_lines_Cons store_dom)
  qed (use Cons.IH in \<open>simp_all add: parse_lines_Cons\<close>)
qed

lemma store_keeps_pair:
  "conf s = Some m \<Longrightarrow> m k = Some v \<Longrightarrow> k' \<noteq> k \<Longrightarrow>
   \<exists>m1. store conf sec k' v' s = Some m1 \<and> m1 k = Some v"
  by (cases "s = sec") (simp_all add: store_def)

lemma store_keeps_key:
  "conf s = Some m \<Longrightarrow> k \<in> dom m \<Longrightarrow>
   \<exists>m1. store conf sec k' v' s = Some m1 \<and> k \<in> dom m1"
  by (cases "s = sec") (auto simp: store_def)

lemma parse_lines_keeps_pair:
  "conf s = Some m \<Longrightarrow> m k = Some v \<Longrightarrow> list_all (\<lambda>l. \<not> sets_key k l) xs \<Longrightarrow>
   \<exists>m'. fst (parse_lines conf sec xs) s = Some m' \<and> m' k = Some v"
proof (induction xs arbitrary: conf sec m)
  case Nil
  then show ?case by simp
next
  case (Cons l ls)
  from Cons.prems have rest: "list_all (\<lambda>l. \<not> sets_key k l) ls" by simp
  show ?case
  proof (cases "classify l")
    case (KeyVal k' v')
    with Cons.prems have "k' \<noteq> k" by (simp add: sets_key_def)
    with Cons.prems(1,2) obtain m1 where "store conf sec k' v' s = Some m1" "m1 k = Some v"
      using store_keeps_pair by blast
    from Cons.IH [of "store conf sec k' v'" m1 sec, OF this rest] KeyVal show ?thesis
      by (simp add: parse_lines_Cons)
  qed (use Cons.IH [of conf m, OF Cons.prems(1,2) rest] Cons.prems(1,2) in
      \<open>simp_all add: parse_lines_Cons\<close>)
qed

lemma parse_lines_keeps_key:
  "conf s = Some m \<Longrightarrow> k \<in> dom m \<Longrightarrow>
   \<exists>m'. fst (parse_lines conf sec xs) s = Some m' \<and> k \<in> dom m'"
proof (induction xs arbitrary: conf sec m)
  case Nil
  then show ?case by simp
next
  case (Cons l ls)
  show ?case
  proof (cases "classify l")
    case (KeyVal k' v')
    from Cons.prems obtain m1 where "store conf sec k' v' s = Some m1" "k \<in> dom m1"
      using store_keeps_key by blast
    from Cons.IH [of "store conf sec k' v'" m1 sec, OF this] KeyVal show ?thesis
      by (simp add: parse_lines_Cons)
  qed (use Cons.IH [of conf m, OF Cons.prems] Cons.prems in
      \<open>auto simp add: parse_lines_Cons\<close>)
qed

lemma section_after_no_header:
  "list_all (\<lambda>l. \<not> is_header l) xs \<Longrightarrow> section_after sec xs = sec"
  by (induction xs) (auto simp: is_header_def split: line_kind.splits)

lemma classify_empty_value:
  assumes "TrimSpace (takeWhile (\<lambda>c. c \<noteq> CHR '';'') l) = k @ ''=''" and "CHR ''='' \<notin> set k"
  shows "classify l = Invalid (k @ ''='')"
proof -
  have tw: "takeWhile (\<lambda>x. x \<noteq> CHR ''='') (k @ ''='') = k"
    using assms(2) by (induction k) auto
  have kv: "keyValRe (k @ ''='') = None"
    by (simp add: keyValRe_def tw match_value_def Let_def)
  have "sectionRe (k @ ''='') = None"
  proof (cases k)
    case Nil
    then show ?thesis by (simp add: sectionRe_def)
  next
    case (Cons c cs)
    let ?name = "takeWhile (\<lambda>x. x \<noteq> CHR '']'') (cs @ ''='')"
    have "drop (length ?name) (cs @ ''='') \<noteq> '']''"
    proof
      assume d: "drop (length ?name) (cs @ ''='') = '']''"
      have "last (drop (length ?name) (cs @ ''='')) = CHR ''=''"
        using d by (subst last_drop) (auto simp: not_less intro: ccontr)
      with d show False by simp
    qed
    with Cons show ?thesis by (simp add: sectionRe_def Let_def)
  qed
  with kv assms(1) show ?thesis by (simp add: classify_def Let_def)
qed

lemma parse_lines_pairs:
  "snd (parse_lines conf sec xs) = None \<Longrightarrow>
   fst (parse_lines conf sec xs) a = apply_pairs (conf a) (pairs_under a sec xs)"
proof (induction xs arbitrary: conf sec)
  case Nil
  show ?case by simp
next
  case (Cons l ls)
  show ?case
  proof (cases "classify l")
    case (KeyVal k v)
    with Cons.prems have ok: "snd (parse_lines (store conf sec k v) sec ls) = None"
      by (simp add: parse_lines_Cons)
    have st: "store conf sec k v a =
        (if sec = a then Some ((case conf a of None \<Rightarrow> Map.empty | Some m \<Rightarrow> m)(k \<mapsto> v))
         else conf a)"
      by (auto simp: store_def)
    from Cons.IH [OF ok] KeyVal show ?thesis
      by (simp add: parse_lines_Cons st)
  next
    case (Invalid line)
    with Cons.prems show ?thesis by (simp add: parse_lines_Cons)
  qed (use Cons in \<open>simp_all add: parse_lines_Cons\<close>)
qed

lemma parse_lines_no_pairs:
  "stored_under sec xs = [] \<Longrightarrow> fst (parse_lines conf sec xs) = conf"
proof (induction xs arbitrary: conf sec)
  case Nil
  show ?case by simp
next
  case (Cons l ls)
  then show ?case
    by (cases "classify l") (simp_all add: parse_lines_Cons)
qed

lemma classify_value_nonempty: "classify l \<noteq> KeyVal k []"
  by (auto simp: classify_def keyValRe_def match_value_def Let_def
      split: option.splits list.splits if_splits)

subsection \<open>The cache\<close>

lemma lookupSection_pathname:
  "pathname c' = pathname c \<Longrightarrow> lookupSection fs c' = lookupSection fs c"
  by (rule ext) (simp add: lookupSection_def)

lemma New_cache:
  assumes "New path setters = Inr c"
  shows "\<exists>g. cgm c = Some g \<and> entries g = Map.empty \<and> \<not> is_closed g"
  using assms
  by (auto simp: New_def NewSyncAtomicMap_def Let_def split: sum.splits if_splits)

lemma New_consistent: "New path setters = Inr c \<Longrightarrow> consistent fs c"
  using New_cache [of path setters c] by (auto simp: consistent_def)

lemma Section_pathname: "pathname (snd (Section fs now c name)) = pathname c"
  by (auto simp: Section_def split: option.splits prod.splits sum.splits)

lemma Section_result:
  "consistent fs c \<Longrightarrow> fst (Section fs now c name) = lookupSection fs c name"
  by (auto simp: consistent_def Section_def LoadStore_def Load_def
      split: option.splits prod.splits sum.splits if_splits)

lemma Section_error:
  assumes "consistent fs c" and "lookupSection fs c name = Inl err"
  shows "Section fs now c name = (Inl err, c)"
proof -
  from assms(1) obtain g where g: "cgm c = Some g" "\<not> is_closed g"
    and cached: "\<And>key e. entries g key = Some e \<Longrightarrow> lookupSection fs c key = Inr (cached e)"
    by (auto simp: consistent_def split: option.splits)
  have "entries g name = None"
  proof (cases "entries g name")
    case (Some e)
    from cached [OF this] assms(2) show ?thesis by simp
  qed simp
  then have "LoadStore (lookupSection fs c) g now name = (Inl err, g)"
    using g(2) assms(2) by (simp add: LoadStore_def Load_def)
  with g(1) show ?thesis by (simp add: Section_def)
qed

lemma Section_consistent:
  assumes "consistent fs c"
  shows "consistent fs (snd (Section fs now c name))"
proof -
  from assms obtain g where g: "cgm c = Some g" "\<not> is_closed g"
    and cached: "\<And>key e. entries g key = Some e \<Longrightarrow> lookupSection fs c key = Inr (cached e)"
    by (auto simp: consistent_def split: option.splits)
  obtain r g' where ls: "LoadStore (lookupSection fs c) g now name = (r, g')"
    by (cases "LoadStore (lookupSection fs c) g now name")
  have closed': "\<not> is_closed g'"
    using ls g(2) by (auto simp: LoadStore_def split: option.splits sum.splits)
  have cached': "lookupSection fs c key = Inr (cached e)" if "entries g' key = Some e" for key e
    using ls g(2) that cached
    by (auto simp: LoadStore_def split: option.splits sum.splits if_splits)
  have snd_eq: "snd (Section fs now c name) = c\<lparr>cgm := Some g'\<rparr>"
    using g(1) ls by (cases r) (simp_all add: Section_def)
  have "lookupSection fs (c\<lparr>cgm := Some g'\<rparr>) = lookupSection fs c"
    by (rule lookupSection_pathname) simp
  with closed' cached' snd_eq show ?thesis by (simp add: consistent_def)
qed

lemma Sections_consistent: "consistent fs c \<Longrightarrow> consistent fs (Sections fs c calls)"
  by (induction calls arbitrary: c) (auto simp: Section_consistent)

lemma Sections_pathname: "pathname (Sections fs c calls) = pathname c"
  by (induction calls arbitrary: c) (auto simp: Section_pathname)

lemma Sections_lookupSection: "lookupSection fs' (Sections fs c calls) = lookupSection fs' c"
  by (rule lookupSection_pathname) (rule Sections_pathname)

lemma lookupSection_alt:
  "lookupSection fs c name =
     (case snd (parseConfigFile fs (pathname c)) of
        Some err \<Rightarrow> Inl err
      | None \<Rightarrow>
          (case fst (parseConfigFile fs (pathname c)) name of
             None \<Rightarrow> Inl (NoSuchSection name)
           | Some sect \<Rightarrow> Inr sect))"
  by (cases "parseConfigFile fs (pathname c)") (auto simp: lookupSection_def split: option.splits)

lemma Sections_error:
  assumes "consistent fs c" and "\<And>name. \<exists>err. lookupSection fs c name = Inl err"
  shows "Sections fs c calls = c"
proof (induction calls)
  case Nil
  show ?case by simp
next
  case (Cons call calls)
  obtain now name where call: "call = (now, name)" by (cases call)
  from assms(2) obtain err where "lookupSection fs c name = Inl err" by blast
  from Section_error [OF assms(1) this] have "Section fs now c name = (Inl err, c)" .
  with Cons call show ?case by simp
qed

lemma consistent_miss:
  assumes "consistent fs c" and "lookupSection fs c name = Inl err"
  shows "\<exists>g. cgm c = Some g \<and> \<not> is_closed g \<and> entries g name = None"
proof -
  from assms(1) obtain g where g: "cgm c = Some g" "\<not> is_closed g"
    and cached: "\<And>key e. entries g key = Some e \<Longrightarrow> lookupSection fs c key = Inr (cached e)"
    by (auto simp: consistent_def split: option.splits)
  have "entries g name = None"
  proof (cases "entries g name")
    case (Some e)
    from cached [OF this] assms(2) show ?thesis by simp
  qed simp
  with g show ?thesis by simp
qed

lemma Section_closed:
  assumes "cgm c = Some g" and "is_closed g"
  shows "Section fs now c name = (Inl Closed, c)"
proof -
  have "c\<lparr>cgm := Some g\<rparr> = c" using assms(1) by (cases c) simp
  with assms show ?thesis by (simp add: Section_def LoadStore_def)
qed

lemma Sections_closed:
  assumes "cgm c = Some g" and "is_closed g"
  shows "Sections fs c calls = c"
proof (induction calls)
  case Nil
  show ?case by simp
next
  case (Cons call calls)
  obtain now name where "call = (now, name)" by (cases call)
  with Cons Section_closed [OF assms] show ?case by simp
qed

text \<open>
  The round trip at the level of pairs: when the lines store exactly two pairs under a section,
  \<^const>\<open>Section\<close> returns the mapping of these two pairs, with the keys as \<^const>\<open>keyValRe\<close>
  reads them.
\<close>

lemma Section_pairs:
  assumes "New path setters = Inr c0" and "fs (pathname c0) = Some lines"
    and "list_all (\<lambda>l. \<not> is_invalid l) lines"
    and "pairs_under a DefaultSectionName lines = [(k1, v1), (k2, v2)]"
  shows "fst (Section fs now (Sections fs c0 calls) a) = Inr [k1 \<mapsto> v1, k2 \<mapsto> v2]"
proof -
  let ?init = "Map.empty(DefaultSectionName \<mapsto> Map.empty) :: conf"
  have run: "parseConfigFile fs (pathname c0) = parse_lines ?init DefaultSectionName lines"
    using assms(2) by (simp add: parseConfigFile_def)
  have ok: "snd (parse_lines ?init DefaultSectionName lines) = None"
    by (rule parse_lines_valid [OF assms(3)])
  have "fst (parse_lines ?init DefaultSectionName lines) a =
      apply_pairs (?init a) [(k1, v1), (k2, v2)]"
    using parse_lines_pairs [OF ok, of a] assms(4) by simp
  also have "\<dots> = Some [k1 \<mapsto> v1, k2 \<mapsto> v2]"
    by (cases "a = DefaultSectionName") simp_all
  finally have "lookupSection fs c0 a = Inr [k1 \<mapsto> v1, k2 \<mapsto> v2]"
    using ok by (simp add: lookupSection_alt run)
  moreover have "consistent fs (Sections fs c0 calls)"
    by (rule Sections_consistent [OF New_consistent [OF assms(1)]])
  ultimately show ?thesis
    by (simp add: Section_result Sections_lookupSection)
qed

lemma apply_setters_fails:
  assumes "setter \<in> set setters" and "\<And>c. \<exists>err. setter c = Inl err"
  shows "\<exists>err. apply_setters c setters = Inl err"
  using assms(1)
proof (induction setters arbitrary: c)
  case Nil
  then show ?case by simp
next
  case (Cons s ss)
  show ?case
  proof (cases "s c")
    case (Inl err)
    then show ?thesis by simp
  next
    case (Inr c')
    show ?thesis
    proof (cases "s = setter")
      case True
      with assms(2) [of c] Inr show ?thesis by simp
    next
      case False
      with Cons.prems have "setter \<in> set ss" by simp
      from Cons.IH [OF this, of c'] Inr show ?thesis by simp
    qed
  qed
qed

lemma apply_setters_append:
  "apply_setters c (xs @ ys) =
     (case apply_setters c xs of Inl err \<Rightarrow> Inl err | Inr c' \<Rightarrow> apply_setters c' ys)"
  by (induction xs arbitrary: c) (simp_all split: sum.splits)

lemma Section_miss_error:
  assumes "cgm c = Some g" and "\<not> is_closed g" and "Load g now name = None"
    and "lookupSection fs c name = Inl err"
  shows "Section fs now c name = (Inl err, c)"
proof -
  have "c\<lparr>cgm := Some g\<rparr> = c" using assms(1) by (cases c) simp
  with assms show ?thesis by (simp add: Section_def LoadStore_def)
qed

section \<open>The claims\<close>

subsection \<open>C3: the default section\<close>

text \<open>
  Claim C3, as the code has it. For every file that opens, the table the parser builds has an
  entry for \<^const>\<open>DefaultSectionName\<close>, also when no pair is stored at all (the table is
  then that one empty entry), and also when the parse ends in an error. A key-value line
  with neither a header line nor an invalid line before it puts its key into that entry,
  with the line's value unless a later line sets the same key.
\<close>

theorem default_section:
  assumes "fs path = Some lines"
  shows "\<exists>m. fst (parseConfigFile fs path) DefaultSectionName = Some m \<and>
      (stored_under DefaultSectionName lines = [] \<longrightarrow>
         fst (parseConfigFile fs path) = [DefaultSectionName \<mapsto> Map.empty]) \<and>
      (\<forall>pre l post k v.
         lines = pre @ l # post \<longrightarrow> list_all (\<lambda>x. \<not> is_header x \<and> \<not> is_invalid x) pre \<longrightarrow>
         classify l = KeyVal k v \<longrightarrow>
         k \<in> dom m \<and> (list_all (\<lambda>x. \<not> sets_key k x) post \<longrightarrow> m k = Some v))"
proof -
  let ?init = "Map.empty(DefaultSectionName \<mapsto> Map.empty) :: conf"
  let ?conf = "fst (parseConfigFile fs path)"
  have run: "?conf = fst (parse_lines ?init DefaultSectionName lines)"
    using assms by (simp add: parseConfigFile_def)
  have "DefaultSectionName \<in> dom (fst (parse_lines ?init DefaultSectionName lines))"
    using parse_lines_dom_mono [of ?init DefaultSectionName lines] by auto
  with run obtain m where m: "?conf DefaultSectionName = Some m" by auto
  have empty: "?conf = ?init" if "stored_under DefaultSectionName lines = []"
    using parse_lines_no_pairs [OF that, of ?init] run by simp
  have pairs: "k \<in> dom m \<and> (list_all (\<lambda>x. \<not> sets_key k x) post \<longrightarrow> m k = Some v)"
    if shape: "lines = pre @ l # post"
      and pre: "list_all (\<lambda>x. \<not> is_header x \<and> \<not> is_invalid x) pre"
      and kv: "classify l = KeyVal k v" for pre l post k v
  proof -
    from pre have nohdr: "list_all (\<lambda>x. \<not> is_header x) pre"
      and valid: "list_all (\<lambda>x. \<not> is_invalid x) pre"
      by (simp_all add: list_all_iff)
    have "snd (parse_lines ?init DefaultSectionName pre) = None"
      by (rule parse_lines_valid [OF valid])
    then obtain c1 where c1: "parse_lines ?init DefaultSectionName pre = (c1, None)"
      by (cases "parse_lines ?init DefaultSectionName pre") simp
    have "parse_lines ?init DefaultSectionName (pre @ l # post) =
        parse_lines c1 (section_after DefaultSectionName pre) (l # post)"
      by (simp add: parse_lines_append c1)
    also have "\<dots> = parse_lines (store c1 DefaultSectionName k v) DefaultSectionName post"
      by (simp add: section_after_no_header [OF nohdr] parse_lines_Cons kv)
    finally have rest:
      "?conf = fst (parse_lines (store c1 DefaultSectionName k v) DefaultSectionName post)"
      using run shape by simp
    obtain m1 where m1: "store c1 DefaultSectionName k v DefaultSectionName = Some m1"
      "m1 k = Some v"
      by (simp add: store_def)
    from m1(2) have "k \<in> dom m1" by (simp add: domI)
    from parse_lines_keeps_key
      [of "store c1 DefaultSectionName k v" DefaultSectionName m1 k DefaultSectionName post,
        OF m1(1) this]
      rest m
    have dom: "k \<in> dom m" by simp
    have "m k = Some v" if "list_all (\<lambda>x. \<not> sets_key k x) post"
      using parse_lines_keeps_pair
          [of "store c1 DefaultSectionName k v" DefaultSectionName m1 k v post
            DefaultSectionName, OF m1 that]
        rest m
      by simp
    with dom show ?thesis by simp
  qed
  show ?thesis
  proof (intro exI [of _ m] conjI allI impI)
    show "?conf DefaultSectionName = Some m" by (rule m)
    show "?conf = [DefaultSectionName \<mapsto> Map.empty]"
      if "stored_under DefaultSectionName lines = []"
      using that by (rule empty)
    show "k \<in> dom m"
      if "lines = pre @ l # post" "list_all (\<lambda>x. \<not> is_header x \<and> \<not> is_invalid x) pre"
        "classify l = KeyVal k v" for pre l post k v
      using pairs [OF that] by simp
    show "m k = Some v"
      if "lines = pre @ l # post" "list_all (\<lambda>x. \<not> is_header x \<and> \<not> is_invalid x) pre"
        "classify l = KeyVal k v" "list_all (\<lambda>x. \<not> sets_key k x) post" for pre l post k v
      using pairs [OF that(1-3)] that(4) by simp
  qed
qed

text \<open>
  A file whose first line is a pair, followed by a section of its own and by a line that is
  not valid.
\<close>

theorem default_section_witness:
  "\<exists>m. fst (parseConfigFile [''f'' \<mapsto> [''x = 1'', ''[A]'', ''y=2'', ''oops'']] ''f'')
          DefaultSectionName = Some m \<and>
       m ''x '' = Some ''1''"
proof -
  let ?lines = "[''x = 1'', ''[A]'', ''y=2'', ''oops'']"
  let ?fs = "[''f'' \<mapsto> ?lines] :: filesystem"
  have opened: "?fs ''f'' = Some ?lines" by simp
  have kv: "classify ''x = 1'' = KeyVal ''x '' ''1''" by code_simp
  have post: "list_all (\<lambda>x. \<not> sets_key ''x '' x) [''[A]'', ''y=2'', ''oops'']" by code_simp
  have shape: "?lines = [] @ ''x = 1'' # [''[A]'', ''y=2'', ''oops'']" by simp
  have pre: "list_all (\<lambda>x. \<not> is_header x \<and> \<not> is_invalid x) []" by simp
  from default_section [of ?fs "''f''" ?lines, OF opened] obtain m
    where m: "fst (parseConfigFile ?fs ''f'') DefaultSectionName = Some m"
      and pairs: "\<forall>pre l post k v. ?lines = pre @ l # post \<longrightarrow>
        list_all (\<lambda>x. \<not> is_header x \<and> \<not> is_invalid x) pre \<longrightarrow> classify l = KeyVal k v \<longrightarrow>
        k \<in> dom m \<and> (list_all (\<lambda>x. \<not> sets_key k x) post \<longrightarrow> m k = Some v)"
    by (elim exE conjE)
  from pairs [rule_format, OF shape pre kv] post have "m ''x '' = Some ''1''"
    by (elim conjE impE)
  with m show ?thesis by (intro exI conjI)
qed

text \<open>
  Claim C3 as it is worded speaks of every file. The loop returns at the first line that is
  not valid, so a pair after such a line is never read, header or not: here the entry of the
  default section stays empty.
\<close>

theorem default_section_counterexample:
  "classify ''x = 1'' = KeyVal ''x '' ''1'' \<and> \<not> is_header ''oops'' \<and>
   parseConfigFile [''f'' \<mapsto> [''oops'', ''x = 1'']] ''f'' =
     ([DefaultSectionName \<mapsto> Map.empty], Some (InvalidConfigLine ''oops''))"
proof -
  have kv: "classify ''x = 1'' = KeyVal ''x '' ''1''" by code_simp
  have bad: "classify ''oops'' = Invalid ''oops''" by code_simp
  then have "\<not> is_header ''oops''" by (simp add: is_header_def)
  moreover have "parseConfigFile [''f'' \<mapsto> [''oops'', ''x = 1'']] ''f'' =
      ([DefaultSectionName \<mapsto> Map.empty], Some (InvalidConfigLine ''oops''))"
    by (simp add: parseConfigFile_def parse_lines_Cons bad)
  ultimately show ?thesis using kv by (intro conjI)
qed

subsection \<open>C10: a line with an empty value\<close>

text \<open>
  Claim C10. A line that, once its comment is cut off and it is trimmed, is a key followed by
  \<^verbatim>\<open>=\<close> and nothing more, is an invalid line: the parse of a file that contains it ends
  in an invalid-line error, which names this very line when no invalid line comes before it.
  No line at all is read as a pair with an empty value.
\<close>

theorem empty_value_is_invalid:
  assumes "fs path = Some lines" and "l \<in> set lines"
    and "TrimSpace (takeWhile (\<lambda>c. c \<noteq> CHR '';'') l) = k @ ''=''" and "CHR ''='' \<notin> set k"
  shows "classify l = Invalid (k @ ''='') \<and>
     (\<exists>line. snd (parseConfigFile fs path) = Some (InvalidConfigLine line)) \<and>
     (\<forall>pre post. lines = pre @ l # post \<longrightarrow> list_all (\<lambda>x. \<not> is_invalid x) pre \<longrightarrow>
        snd (parseConfigFile fs path) = Some (InvalidConfigLine (k @ ''=''))) \<and>
     (\<forall>l' k'. classify l' \<noteq> KeyVal k' [])"
proof -
  let ?init = "Map.empty(DefaultSectionName \<mapsto> Map.empty) :: conf"
  have inv: "classify l = Invalid (k @ ''='')"
    by (rule classify_empty_value [OF assms(3,4)])
  then have "is_invalid l" by (simp add: is_invalid_def)
  with assms(2) have "\<not> list_all (\<lambda>x. \<not> is_invalid x) lines"
    by (auto simp: list_all_iff)
  from parse_lines_invalid [OF this, of ?init DefaultSectionName] assms(1)
  have err: "\<exists>line. snd (parseConfigFile fs path) = Some (InvalidConfigLine line)"
    by (auto simp: parseConfigFile_def)
  have first: "snd (parseConfigFile fs path) = Some (InvalidConfigLine (k @ ''=''))"
    if shape: "lines = pre @ l # post" and pre: "list_all (\<lambda>x. \<not> is_invalid x) pre" for pre post
  proof -
    have "snd (parse_lines ?init DefaultSectionName pre) = None"
      by (rule parse_lines_valid [OF pre])
    then obtain c' where c': "parse_lines ?init DefaultSectionName pre = (c', None)"
      by (cases "parse_lines ?init DefaultSectionName pre") simp
    have "parse_lines ?init DefaultSectionName (pre @ l # post) =
        parse_lines c' (section_after DefaultSectionName pre) (l # post)"
      by (simp add: parse_lines_append c')
    also have "\<dots> = (c', Some (InvalidConfigLine (k @ ''='')))"
      by (simp add: parse_lines_Cons inv)
    finally show ?thesis using assms(1) shape by (simp add: parseConfigFile_def)
  qed
  show ?thesis
  proof (intro conjI allI impI)
    show "classify l = Invalid (k @ ''='')" by (rule inv)
    show "\<exists>line. snd (parseConfigFile fs path) = Some (InvalidConfigLine line)" by (rule err)
    show "snd (parseConfigFile fs path) = Some (InvalidConfigLine (k @ ''=''))"
      if "lines = pre @ l # post" and "list_all (\<lambda>x. \<not> is_invalid x) pre" for pre post
      using that by (rule first)
    show "classify l' \<noteq> KeyVal k' []" for l' k' by (rule classify_value_nonempty)
  qed
qed

text \<open>
  The claim's two examples: the line \<^verbatim>\<open>key = ; only a comment\<close> between two pairs, and
  the line \<^verbatim>\<open>key =\<close> alone.
\<close>

theorem empty_value_is_invalid_witness:
  "classify ''key = ; only a comment'' = Invalid ''key ='' \<and>
   snd (parseConfigFile [''f'' \<mapsto> [''a=b'', ''key = ; only a comment'', ''c=d'']] ''f'') =
     Some (InvalidConfigLine ''key ='') \<and>
   classify ''key ='' = Invalid ''key ='' \<and>
   snd (parseConfigFile [''g'' \<mapsto> [''key ='']] ''g'') = Some (InvalidConfigLine ''key ='')"
proof -
  let ?lines = "[''a=b'', ''key = ; only a comment'', ''c=d'']"
  let ?fs = "[''f'' \<mapsto> ?lines] :: filesystem"
  have t: "TrimSpace (takeWhile (\<lambda>c. c \<noteq> CHR '';'') ''key = ; only a comment'') = ''key '' @ ''=''"
    by code_simp
  have pre: "list_all (\<lambda>x. \<not> is_invalid x) [''a=b'']" by code_simp
  have opened: "?fs ''f'' = Some ?lines" by simp
  have mem: "''key = ; only a comment'' \<in> set ?lines" by simp
  have eq: "CHR ''='' \<notin> set ''key ''" by simp
  have shape: "?lines = [''a=b''] @ ''key = ; only a comment'' # [''c=d'']" by simp
  note inst = empty_value_is_invalid
    [of ?fs "''f''" ?lines "''key = ; only a comment''" "''key ''", OF opened mem t eq]
  from inst have c: "classify ''key = ; only a comment'' = Invalid (''key '' @ ''='')"
    by (elim conjE)
  from inst have "\<forall>pre post. ?lines = pre @ ''key = ; only a comment'' # post \<longrightarrow>
        list_all (\<lambda>x. \<not> is_invalid x) pre \<longrightarrow>
        snd (parseConfigFile ?fs ''f'') = Some (InvalidConfigLine (''key '' @ ''=''))"
    by (elim conjE)
  from this [rule_format, OF shape pre] c have first:
    "classify ''key = ; only a comment'' = Invalid ''key ='' \<and>
     snd (parseConfigFile ?fs ''f'') = Some (InvalidConfigLine ''key ='')"
    by simp
  let ?gs = "[''g'' \<mapsto> [''key ='']] :: filesystem"
  have t': "TrimSpace (takeWhile (\<lambda>c. c \<noteq> CHR '';'') ''key ='') = ''key '' @ ''=''"
    by code_simp
  have opened': "?gs ''g'' = Some [''key ='']" by simp
  have mem': "''key ='' \<in> set [''key ='']" by simp
  have shape': "[''key =''] = [] @ ''key ='' # []" by simp
  have pre': "list_all (\<lambda>x. \<not> is_invalid x) []" by simp
  note inst' = empty_value_is_invalid
    [of ?gs "''g''" "[''key ='']" "''key =''" "''key ''", OF opened' mem' t' eq]
  from inst' have c': "classify ''key ='' = Invalid (''key '' @ ''='')"
    by (elim conjE)
  from inst' have "\<forall>pre post. [''key =''] = pre @ ''key ='' # post \<longrightarrow>
        list_all (\<lambda>x. \<not> is_invalid x) pre \<longrightarrow>
        snd (parseConfigFile ?gs ''g'') = Some (InvalidConfigLine (''key '' @ ''=''))"
    by (elim conjE)
  from this [rule_format, OF shape' pre'] c' have second:
    "classify ''key ='' = Invalid ''key ='' \<and>
     snd (parseConfigFile ?gs ''g'') = Some (InvalidConfigLine ''key ='')"
    by simp
  from first second show ?thesis by (elim conjE) (intro conjI)
qed

subsection \<open>C2: the key of a pair\<close>

text \<open>
  Claim C2 says that the line \<^verbatim>\<open>k = v ; trailing comment\<close> stores the key \<^verbatim>\<open>k\<close>. The first
  group of \<^verbatim>\<open>keyValRe\<close> is greedy and takes the blank before the \<^verbatim>\<open>=\<close> with it, so the
  key that is stored is \<^verbatim>\<open>k\<close> followed by a blank, and the table has no entry for the key
  \<^verbatim>\<open>k\<close>. The value is \<^verbatim>\<open>v\<close>, as the claim says.
\<close>

theorem key_keeps_trailing_blank:
  "classify ''k = v ; trailing comment'' = KeyVal ''k '' ''v'' \<and>
   parseConfigFile [''f'' \<mapsto> [''k = v ; trailing comment'']] ''f'' =
     ([DefaultSectionName \<mapsto> [''k '' \<mapsto> ''v'']], None) \<and>
   [''k '' \<mapsto> ''v''] ''k'' = None"
proof -
  have kv: "classify ''k = v ; trailing comment'' = KeyVal ''k '' ''v''" by code_simp
  then show ?thesis
    by (simp add: parseConfigFile_def parse_lines_Cons store_def)
qed

subsection \<open>C4: a malformed line fails every section\<close>

text \<open>
  Claim C4. Take a Config built by \<^const>\<open>New\<close> and a file that has at least one line that is
  neither blank, a comment, a header nor a pair. Then the load of every section fails with
  the invalid-line error of one such line (the first), every \<^const>\<open>Section\<close> call fails with
  that error whatever calls came before, the Config stays as \<^const>\<open>New\<close> made it, and its
  cache holds nothing. More generally, on any open Config for that file, a call that finds
  no live entry in the cache fails with that error and changes nothing. The cache's
  behaviour on a loader error is the spec's, section 4.1.
\<close>

theorem invalid_line_fails_every_section:
  assumes "New path setters = Inr c0" and "fs (pathname c0) = Some lines"
    and "\<not> list_all (\<lambda>l. \<not> is_invalid l) lines"
  shows "\<exists>l line. l \<in> set lines \<and> classify l = Invalid line \<and>
     (\<forall>name. lookupSection fs c0 name = Inl (InvalidConfigLine line)) \<and>
     (\<forall>calls now name.
        Sections fs c0 calls = c0 \<and>
        Section fs now (Sections fs c0 calls) name = (Inl (InvalidConfigLine line), c0)) \<and>
     (\<exists>g. cgm c0 = Some g \<and> entries g = Map.empty) \<and>
     (\<forall>c g now name.
        pathname c = pathname c0 \<longrightarrow> cgm c = Some g \<longrightarrow> \<not> is_closed g \<longrightarrow>
        Load g now name = None \<longrightarrow>
        Section fs now c name = (Inl (InvalidConfigLine line), c))"
proof -
  let ?init = "Map.empty(DefaultSectionName \<mapsto> Map.empty) :: conf"
  from parse_lines_invalid [OF assms(3), of ?init DefaultSectionName]
  obtain l line where l: "l \<in> set lines" "classify l = Invalid line"
    and err: "snd (parse_lines ?init DefaultSectionName lines) = Some (InvalidConfigLine line)"
    by blast
  have loader: "lookupSection fs c0 name = Inl (InvalidConfigLine line)" for name
    using err assms(2) by (simp add: lookupSection_alt parseConfigFile_def)
  have cons: "consistent fs c0" by (rule New_consistent [OF assms(1)])
  have same: "Sections fs c0 calls = c0" for calls
    by (rule Sections_error [OF cons]) (simp add: loader)
  have call: "Section fs now (Sections fs c0 calls) name = (Inl (InvalidConfigLine line), c0)"
    for calls now name
    using Section_error [OF cons loader] by (simp add: same)
  from New_cache [OF assms(1)] have fresh: "\<exists>g. cgm c0 = Some g \<and> entries g = Map.empty"
    by blast
  have miss: "Section fs now c name = (Inl (InvalidConfigLine line), c)"
    if "pathname c = pathname c0" and "cgm c = Some g" and "\<not> is_closed g"
      and "Load g now name = None" for c g now name
  proof -
    have "lookupSection fs c name = Inl (InvalidConfigLine line)"
      using lookupSection_pathname [OF that(1), of fs] loader by simp
    from Section_miss_error [OF that(2-4) this] show ?thesis .
  qed
  show ?thesis
  proof (rule exI [of _ l], rule exI [of _ line], intro conjI allI impI)
    show "l \<in> set lines" by (rule l(1))
    show "classify l = Invalid line" by (rule l(2))
    show "lookupSection fs c0 name = Inl (InvalidConfigLine line)" for name by (rule loader)
    show "Sections fs c0 calls = c0" for calls by (rule same)
    show "Section fs now (Sections fs c0 calls) name = (Inl (InvalidConfigLine line), c0)"
      for calls now name by (rule call)
    show "\<exists>g. cgm c0 = Some g \<and> entries g = Map.empty" by (rule fresh)
    show "Section fs now c name = (Inl (InvalidConfigLine line), c)"
      if "pathname c = pathname c0" and "cgm c = Some g" and "\<not> is_closed g"
        and "Load g now name = None" for c g now name
      using that by (rule miss)
  qed
qed

text \<open>A file with a header, a pair and the spec's malformed line.\<close>

theorem invalid_line_fails_every_section_witness:
  "Section [''f'' \<mapsto> [''[A]'', ''k=v'', ''not a valid line'']] 0
     \<lparr>pathname = ''f'', cgm = Some \<lparr>entries = Map.empty, cttl = 0, is_closed = False\<rparr>, ttl = 0\<rparr>
     ''A'' =
   (Inl (InvalidConfigLine ''not a valid line''),
    \<lparr>pathname = ''f'', cgm = Some \<lparr>entries = Map.empty, cttl = 0, is_closed = False\<rparr>, ttl = 0\<rparr>)"
proof -
  let ?lines = "[''[A]'', ''k=v'', ''not a valid line'']"
  let ?fs = "[''f'' \<mapsto> ?lines] :: filesystem"
  let ?c0 = "\<lparr>pathname = ''f'',
    cgm = Some \<lparr>entries = Map.empty, cttl = 0, is_closed = False\<rparr>, ttl = 0\<rparr>"
  have new: "New ''f'' [] = Inr ?c0"
    by (simp add: New_def NewSyncAtomicMap_def)
  have opened: "?fs (pathname ?c0) = Some ?lines" by simp
  have bad: "\<not> list_all (\<lambda>l. \<not> is_invalid l) ?lines" by code_simp
  have c1: "classify ''[A]'' = Header ''A''" by code_simp
  have c2: "classify ''k=v'' = KeyVal ''k'' ''v''" by code_simp
  have c3: "classify ''not a valid line'' = Invalid ''not a valid line''" by code_simp
  have direct: "lookupSection ?fs ?c0 ''A'' = Inl (InvalidConfigLine ''not a valid line'')"
    by (simp add: lookupSection_def parseConfigFile_def parse_lines_Cons c1 c2 c3)
  from invalid_line_fails_every_section [of "''f''" "[]" ?c0 ?fs ?lines, OF new opened bad]
  obtain line where loader: "\<forall>name. lookupSection ?fs ?c0 name = Inl (InvalidConfigLine line)"
    and calls: "\<forall>calls now name. Sections ?fs ?c0 calls = ?c0 \<and>
      Section ?fs now (Sections ?fs ?c0 calls) name = (Inl (InvalidConfigLine line), ?c0)"
    by (elim exE conjE)
  from loader [rule_format, of "''A''"] direct have "line = ''not a valid line''" by simp
  with calls [rule_format, of "[]" 0 "''A''"] show ?thesis by simp
qed

subsection \<open>C6: an unknown section\<close>

text \<open>
  Claim C6. Take a Config built by \<^const>\<open>New\<close>, after any calls of \<^const>\<open>Section\<close> on a file
  that parses, and a name with no entry in the parsed table. A call for that name returns the
  no-such-section error and leaves the Config, cache included, exactly as it was: nothing is
  remembered of the failure, and the other sections keep their cached values. The next call
  for the name loads again: once the file has the section, the call returns its mapping.
  The cache's behaviour is the spec's, section 4.1.
\<close>

theorem unknown_section_not_cached:
  assumes "New path setters = Inr c0" and "c = Sections fs c0 calls"
    and "parseConfigFile fs (pathname c0) = (conf, None)" and "conf name = None"
  shows "Section fs now c name = (Inl (NoSuchSection name), c) \<and>
     (\<forall>fs' now' conf' m.
        parseConfigFile fs' (pathname c0) = (conf', None) \<longrightarrow> conf' name = Some m \<longrightarrow>
        fst (Section fs' now' c name) = Inr m)"
proof -
  have cons: "consistent fs c"
    unfolding assms(2) by (rule Sections_consistent [OF New_consistent [OF assms(1)]])
  have path: "pathname c = pathname c0"
    unfolding assms(2) by (rule Sections_pathname)
  have loader: "lookupSection fs c name = Inl (NoSuchSection name)"
    using assms(3,4) path by (simp add: lookupSection_def)
  have first: "Section fs now c name = (Inl (NoSuchSection name), c)"
    by (rule Section_error [OF cons loader])
  from consistent_miss [OF cons loader]
  obtain g where g: "cgm c = Some g" "\<not> is_closed g" "entries g name = None" by blast
  have again: "fst (Section fs' now' c name) = Inr m"
    if "parseConfigFile fs' (pathname c0) = (conf', None)" and "conf' name = Some m"
    for fs' now' conf' m
  proof -
    have "lookupSection fs' c name = Inr m"
      using that path by (simp add: lookupSection_def)
    with g show ?thesis
      by (simp add: Section_def LoadStore_def Load_def)
  qed
  show ?thesis
  proof (intro conjI allI impI)
    show "Section fs now c name = (Inl (NoSuchSection name), c)" by (rule first)
    show "fst (Section fs' now' c name) = Inr m"
      if "parseConfigFile fs' (pathname c0) = (conf', None)" and "conf' name = Some m"
      for fs' now' conf' m
      using that by (rule again)
  qed
qed

text \<open>
  A Config that has section A of its file in its cache is asked for a section the file does not
  have; then the file gets that section, and the next call finds it.
\<close>

theorem unknown_section_not_cached_witness:
  "Section [''f'' \<mapsto> [''[A]'', ''k=v'']] 1
     (Sections [''f'' \<mapsto> [''[A]'', ''k=v'']]
        \<lparr>pathname = ''f'', cgm = Some \<lparr>entries = Map.empty, cttl = 0, is_closed = False\<rparr>, ttl = 0\<rparr>
        [(0, ''A'')])
     ''DoesNotExist'' =
   (Inl (NoSuchSection ''DoesNotExist''),
    Sections [''f'' \<mapsto> [''[A]'', ''k=v'']]
      \<lparr>pathname = ''f'', cgm = Some \<lparr>entries = Map.empty, cttl = 0, is_closed = False\<rparr>, ttl = 0\<rparr>
      [(0, ''A'')]) \<and>
   fst (Section [''f'' \<mapsto> [''[A]'', ''k=v'', ''[DoesNotExist]'', ''x=1'']] 2
     (Sections [''f'' \<mapsto> [''[A]'', ''k=v'']]
        \<lparr>pathname = ''f'', cgm = Some \<lparr>entries = Map.empty, cttl = 0, is_closed = False\<rparr>, ttl = 0\<rparr>
        [(0, ''A'')])
     ''DoesNotExist'') = Inr [''x'' \<mapsto> ''1'']"
proof -
  let ?fs = "[''f'' \<mapsto> [''[A]'', ''k=v'']] :: filesystem"
  let ?fs' = "[''f'' \<mapsto> [''[A]'', ''k=v'', ''[DoesNotExist]'', ''x=1'']] :: filesystem"
  let ?c0 = "\<lparr>pathname = ''f'',
    cgm = Some \<lparr>entries = Map.empty, cttl = 0, is_closed = False\<rparr>, ttl = 0\<rparr>"
  let ?conf = "fst (parseConfigFile ?fs ''f'')"
  have new: "New ''f'' [] = Inr ?c0"
    by (simp add: New_def NewSyncAtomicMap_def)
  have c1: "classify ''[A]'' = Header ''A''" by code_simp
  have c2: "classify ''k=v'' = KeyVal ''k'' ''v''" by code_simp
  have c3: "classify ''[DoesNotExist]'' = Header ''DoesNotExist''" by code_simp
  have c4: "classify ''x=1'' = KeyVal ''x'' ''1''" by code_simp
  have "snd (parseConfigFile ?fs ''f'') = None"
    by (simp add: parseConfigFile_def parse_lines_Cons c1 c2)
  then have run: "parseConfigFile ?fs (pathname ?c0) = (?conf, None)"
    by (simp add: prod_eq_iff)
  have absent: "?conf ''DoesNotExist'' = None"
    by (simp add: parseConfigFile_def parse_lines_Cons c1 c2 store_def DefaultSectionName_def)
  have run': "parseConfigFile ?fs' (pathname ?c0) =
      ([DefaultSectionName \<mapsto> Map.empty, ''A'' \<mapsto> [''k'' \<mapsto> ''v''],
        ''DoesNotExist'' \<mapsto> [''x'' \<mapsto> ''1'']], None)"
    by (simp add: parseConfigFile_def parse_lines_Cons c1 c2 c3 c4 store_def
        DefaultSectionName_def)
  have present: "[DefaultSectionName \<mapsto> Map.empty, ''A'' \<mapsto> [''k'' \<mapsto> ''v''],
        ''DoesNotExist'' \<mapsto> [''x'' \<mapsto> ''1'']] ''DoesNotExist'' = Some [''x'' \<mapsto> ''1'']"
    by simp
  note inst = unknown_section_not_cached
    [of "''f''" "[]" ?c0 "Sections ?fs ?c0 [(0, ''A'')]" ?fs "[(0, ''A'')]" ?conf
      "''DoesNotExist''" 1, OF new refl run absent]
  from inst have first: "Section ?fs 1 (Sections ?fs ?c0 [(0, ''A'')]) ''DoesNotExist'' =
      (Inl (NoSuchSection ''DoesNotExist''), Sections ?fs ?c0 [(0, ''A'')])"
    by (elim conjE)
  from inst have "\<forall>fs' now' conf' m.
      parseConfigFile fs' (pathname ?c0) = (conf', None) \<longrightarrow> conf' ''DoesNotExist'' = Some m \<longrightarrow>
      fst (Section fs' now' (Sections ?fs ?c0 [(0, ''A'')]) ''DoesNotExist'') = Inr m"
    by (elim conjE)
  from this [rule_format, OF run' present, of 2] first show ?thesis by (intro conjI)
qed

subsection \<open>C8: after Close\<close>

text \<open>
  Claim C8. \<^const>\<open>Close\<close> on a Config that \<^const>\<open>New\<close> built (its \<^verbatim>\<open>cgm\<close> is set) returns no
  error, and every \<^const>\<open>Section\<close> call after it, whatever the file, the time, the name and
  the calls in between, fails with the closed error and returns no mapping. The source only
  delegates to the cache; that the cache refuses every call after \<^verbatim>\<open>Close\<close> is the spec's
  section 4.1.
\<close>

theorem section_after_close:
  assumes "cgm c = Some g"
  shows "fst (Close c) = None \<and>
     (\<forall>fs calls now name.
        Sections fs (snd (Close c)) calls = snd (Close c) \<and>
        Section fs now (Sections fs (snd (Close c)) calls) name = (Inl Closed, snd (Close c)))"
proof -
  let ?g' = "g\<lparr>entries := Map.empty, is_closed := True\<rparr>"
  have close: "Close c = (None, c\<lparr>cgm := Some ?g'\<rparr>)"
    using assms by (simp add: Close_def cgm_Close_def)
  have cg: "cgm (snd (Close c)) = Some ?g'" and closed: "is_closed ?g'"
    by (simp_all add: close)
  have same: "Sections fs (snd (Close c)) calls = snd (Close c)" for fs calls
    by (rule Sections_closed [OF cg closed])
  have call: "Section fs now (Sections fs (snd (Close c)) calls) name = (Inl Closed, snd (Close c))"
    for fs calls now name
    unfolding same by (rule Section_closed [OF cg closed])
  from close same call show ?thesis by simp
qed

text \<open>A fresh Config, closed, then asked for a section its file has.\<close>

theorem section_after_close_witness:
  "Section [''f'' \<mapsto> [''[A]'', ''k=v'']] 5
     (snd (Close \<lparr>pathname = ''f'',
        cgm = Some \<lparr>entries = Map.empty, cttl = 0, is_closed = False\<rparr>, ttl = 0\<rparr>)) ''A'' =
   (Inl Closed,
    snd (Close \<lparr>pathname = ''f'',
        cgm = Some \<lparr>entries = Map.empty, cttl = 0, is_closed = False\<rparr>, ttl = 0\<rparr>))"
proof -
  let ?c0 = "\<lparr>pathname = ''f'',
    cgm = Some \<lparr>entries = Map.empty, cttl = 0, is_closed = False\<rparr>, ttl = 0\<rparr>"
  have built: "cgm ?c0 = Some \<lparr>entries = Map.empty, cttl = 0, is_closed = False\<rparr>" by simp
  from section_after_close [OF built]
  have "\<forall>fs calls now name. Sections fs (snd (Close ?c0)) calls = snd (Close ?c0) \<and>
      Section fs now (Sections fs (snd (Close ?c0)) calls) name = (Inl Closed, snd (Close ?c0))"
    by (elim conjE)
  from this [rule_format, of "[''f'' \<mapsto> [''[A]'', ''k=v'']]" "[]" 5 "''A''"]
  show ?thesis by simp
qed

subsection \<open>C9: a header with no pairs\<close>

text \<open>
  Claim C9, as the code has it. Take a file that opens and a section name, not the default
  one, under which the lines store no pair. Then the table the parser builds has no entry
  for the name: its entries are the default section and the sections that received a pair,
  and a header line passes the table on as it is. When the file also has no invalid line,
  every \<^const>\<open>Section\<close> call for the name, on a Config built by \<^const>\<open>New\<close> and after any
  calls, returns the no-such-section error and changes nothing.
\<close>

theorem header_alone_creates_no_entry:
  assumes "New path setters = Inr c0" and "fs (pathname c0) = Some lines"
    and "name \<noteq> DefaultSectionName"
    and "name \<notin> set (stored_under DefaultSectionName lines)"
  shows "fst (parseConfigFile fs (pathname c0)) name = None \<and>
     dom (fst (parseConfigFile fs (pathname c0))) =
       insert DefaultSectionName (set (stored_under DefaultSectionName lines)) \<and>
     (\<forall>conf sec l ls n. classify l = Header n \<longrightarrow>
        parse_lines conf sec (l # ls) = parse_lines conf n ls) \<and>
     (list_all (\<lambda>l. \<not> is_invalid l) lines \<longrightarrow>
        lookupSection fs c0 name = Inl (NoSuchSection name) \<and>
        (\<forall>calls now. Section fs now (Sections fs c0 calls) name =
           (Inl (NoSuchSection name), Sections fs c0 calls)))"
proof -
  let ?init = "Map.empty(DefaultSectionName \<mapsto> Map.empty) :: conf"
  let ?conf = "fst (parseConfigFile fs (pathname c0))"
  have run: "parseConfigFile fs (pathname c0) = parse_lines ?init DefaultSectionName lines"
    using assms(2) by (simp add: parseConfigFile_def)
  have dom: "dom ?conf = insert DefaultSectionName (set (stored_under DefaultSectionName lines))"
    unfolding run by (simp add: parse_lines_dom)
  with assms(3,4) have "name \<notin> dom ?conf" by simp
  then have absent: "?conf name = None" by (simp add: domIff)
  have hdr: "parse_lines conf sec (l # ls) = parse_lines conf n ls"
    if "classify l = Header n" for conf sec l ls n
    using that by (simp add: parse_lines_Cons)
  have load: "lookupSection fs c0 name = Inl (NoSuchSection name)"
    if valid: "list_all (\<lambda>l. \<not> is_invalid l) lines"
  proof -
    have "snd (parseConfigFile fs (pathname c0)) = None"
      unfolding run by (rule parse_lines_valid [OF valid])
    with absent show ?thesis
      by (simp add: lookupSection_alt)
  qed
  have call: "Section fs now (Sections fs c0 calls) name =
      (Inl (NoSuchSection name), Sections fs c0 calls)"
    if valid: "list_all (\<lambda>l. \<not> is_invalid l) lines" for calls now
  proof -
    from load [OF valid]
    have loader: "lookupSection fs (Sections fs c0 calls) name = Inl (NoSuchSection name)"
      by (simp add: Sections_lookupSection)
    have "consistent fs (Sections fs c0 calls)"
      by (rule Sections_consistent [OF New_consistent [OF assms(1)]])
    from Section_error [OF this loader] show ?thesis .
  qed
  show ?thesis
  proof (intro conjI allI impI)
    show "?conf name = None" by (rule absent)
    show "dom ?conf = insert DefaultSectionName (set (stored_under DefaultSectionName lines))"
      by (rule dom)
    show "parse_lines conf sec (l # ls) = parse_lines conf n ls"
      if "classify l = Header n" for conf sec l ls n
      using that by (rule hdr)
    show "lookupSection fs c0 name = Inl (NoSuchSection name)"
      if "list_all (\<lambda>l. \<not> is_invalid l) lines"
      using that by (rule load)
    show "Section fs now (Sections fs c0 calls) name =
        (Inl (NoSuchSection name), Sections fs c0 calls)"
      if "list_all (\<lambda>l. \<not> is_invalid l) lines" for calls now
      using that by (rule call)
  qed
qed

text \<open>A pair in the default section, then a header followed only by a comment.\<close>

theorem header_alone_creates_no_entry_witness:
  "classify ''[S]'' = Header ''S'' \<and>
   Section [''f'' \<mapsto> [''x=1'', ''[S]'', '' ; nothing here'']] 0
     \<lparr>pathname = ''f'', cgm = Some \<lparr>entries = Map.empty, cttl = 0, is_closed = False\<rparr>, ttl = 0\<rparr>
     ''S'' =
   (Inl (NoSuchSection ''S''),
    \<lparr>pathname = ''f'', cgm = Some \<lparr>entries = Map.empty, cttl = 0, is_closed = False\<rparr>, ttl = 0\<rparr>)"
proof -
  let ?lines = "[''x=1'', ''[S]'', '' ; nothing here'']"
  let ?fs = "[''f'' \<mapsto> ?lines] :: filesystem"
  let ?c0 = "\<lparr>pathname = ''f'',
    cgm = Some \<lparr>entries = Map.empty, cttl = 0, is_closed = False\<rparr>, ttl = 0\<rparr>"
  have new: "New ''f'' [] = Inr ?c0"
    by (simp add: New_def NewSyncAtomicMap_def)
  have opened: "?fs (pathname ?c0) = Some ?lines" by simp
  have hdr: "classify ''[S]'' = Header ''S''" by code_simp
  have other: "''S'' \<noteq> DefaultSectionName" by (simp add: DefaultSectionName_def)
  have none: "''S'' \<notin> set (stored_under DefaultSectionName ?lines)" by code_simp
  have valid: "list_all (\<lambda>l. \<not> is_invalid l) ?lines" by code_simp
  from header_alone_creates_no_entry
    [of "''f''" "[]" ?c0 ?fs ?lines "''S''", OF new opened other none]
  have "list_all (\<lambda>l. \<not> is_invalid l) ?lines \<longrightarrow>
      lookupSection ?fs ?c0 ''S'' = Inl (NoSuchSection ''S'') \<and>
      (\<forall>calls now. Section ?fs now (Sections ?fs ?c0 calls) ''S'' =
         (Inl (NoSuchSection ''S''), Sections ?fs ?c0 calls))"
    by (elim conjE)
  from this [rule_format, OF valid] have
    "\<forall>calls now. Section ?fs now (Sections ?fs ?c0 calls) ''S'' =
         (Inl (NoSuchSection ''S''), Sections ?fs ?c0 calls)"
    by (elim conjE)
  from this [rule_format, of 0 "[]"] hdr show ?thesis by simp
qed

text \<open>
  Claim C9 as it is worded speaks of every file with such a header. When a line of the file
  is not valid, the call fails with that line's error, not with the no-such-section error.
\<close>

theorem header_alone_creates_no_entry_counterexample:
  "classify ''[S]'' = Header ''S'' \<and>
   stored_under DefaultSectionName [''[S]'', ''oops''] = [] \<and>
   New ''f'' [] =
     Inr \<lparr>pathname = ''f'', cgm = Some \<lparr>entries = Map.empty, cttl = 0, is_closed = False\<rparr>,
       ttl = 0\<rparr> \<and>
   Section [''f'' \<mapsto> [''[S]'', ''oops'']] 0
     \<lparr>pathname = ''f'', cgm = Some \<lparr>entries = Map.empty, cttl = 0, is_closed = False\<rparr>, ttl = 0\<rparr>
     ''S'' =
   (Inl (InvalidConfigLine ''oops''),
    \<lparr>pathname = ''f'', cgm = Some \<lparr>entries = Map.empty, cttl = 0, is_closed = False\<rparr>, ttl = 0\<rparr>)"
proof -
  have hdr: "classify ''[S]'' = Header ''S''" by code_simp
  have bad: "classify ''oops'' = Invalid ''oops''" by code_simp
  have stored: "stored_under DefaultSectionName [''[S]'', ''oops''] = []"
    by (simp add: hdr bad)
  have new: "New ''f'' [] =
      Inr \<lparr>pathname = ''f'', cgm = Some \<lparr>entries = Map.empty, cttl = 0, is_closed = False\<rparr>,
        ttl = 0\<rparr>"
    by (simp add: New_def NewSyncAtomicMap_def)
  have "Section [''f'' \<mapsto> [''[S]'', ''oops'']] 0
     \<lparr>pathname = ''f'', cgm = Some \<lparr>entries = Map.empty, cttl = 0, is_closed = False\<rparr>, ttl = 0\<rparr>
     ''S'' =
   (Inl (InvalidConfigLine ''oops''),
    \<lparr>pathname = ''f'', cgm = Some \<lparr>entries = Map.empty, cttl = 0, is_closed = False\<rparr>, ttl = 0\<rparr>)"
    by (simp add: Section_def LoadStore_def Load_def lookupSection_def parseConfigFile_def
        parse_lines_Cons hdr bad)
  with hdr stored new show ?thesis by (intro conjI)
qed

subsection \<open>C1: the round trip\<close>

text \<open>
  Claim C1 says that a file with sections A and B, where A holds the pairs of \<^verbatim>\<open>k1\<close> with
  \<^verbatim>\<open>v1\<close> and of \<^verbatim>\<open>k2\<close> with \<^verbatim>\<open>v2\<close>, gives the mapping of \<^verbatim>\<open>k1\<close> to \<^verbatim>\<open>v1\<close> and of \<^verbatim>\<open>k2\<close>
  to \<^verbatim>\<open>v2\<close> for A. Written the way the file format has it, with blanks around \<^verbatim>\<open>=\<close>, the
  file gives a mapping whose keys end in a blank, and no entry for \<^verbatim>\<open>k1\<close> or \<^verbatim>\<open>k2\<close>.
\<close>

theorem round_trip_keeps_blank:
  "New ''f'' [] =
     Inr \<lparr>pathname = ''f'', cgm = Some \<lparr>entries = Map.empty, cttl = 0, is_closed = False\<rparr>,
       ttl = 0\<rparr> \<and>
   lookupSection [''f'' \<mapsto> [''[A]'', ''k1 = v1'', ''k2 = v2'', ''[B]'', ''k3 = v3'']]
     \<lparr>pathname = ''f'', cgm = Some \<lparr>entries = Map.empty, cttl = 0, is_closed = False\<rparr>, ttl = 0\<rparr>
     ''A'' = Inr [''k1 '' \<mapsto> ''v1'', ''k2 '' \<mapsto> ''v2''] \<and>
   fst (Section [''f'' \<mapsto> [''[A]'', ''k1 = v1'', ''k2 = v2'', ''[B]'', ''k3 = v3'']] 0
     \<lparr>pathname = ''f'', cgm = Some \<lparr>entries = Map.empty, cttl = 0, is_closed = False\<rparr>, ttl = 0\<rparr>
     ''A'') = Inr [''k1 '' \<mapsto> ''v1'', ''k2 '' \<mapsto> ''v2''] \<and>
   [''k1 '' \<mapsto> ''v1'', ''k2 '' \<mapsto> ''v2''] ''k1'' = None \<and>
   [''k1 '' \<mapsto> ''v1'', ''k2 '' \<mapsto> ''v2''] ''k2'' = None"
proof -
  have c1: "classify ''[A]'' = Header ''A''" by code_simp
  have c2: "classify ''k1 = v1'' = KeyVal ''k1 '' ''v1''" by code_simp
  have c3: "classify ''k2 = v2'' = KeyVal ''k2 '' ''v2''" by code_simp
  have c4: "classify ''[B]'' = Header ''B''" by code_simp
  have c5: "classify ''k3 = v3'' = KeyVal ''k3 '' ''v3''" by code_simp
  have new: "New ''f'' [] =
      Inr \<lparr>pathname = ''f'', cgm = Some \<lparr>entries = Map.empty, cttl = 0, is_closed = False\<rparr>,
        ttl = 0\<rparr>"
    by (simp add: New_def NewSyncAtomicMap_def)
  have loader: "lookupSection [''f'' \<mapsto> [''[A]'', ''k1 = v1'', ''k2 = v2'', ''[B]'', ''k3 = v3'']]
     \<lparr>pathname = ''f'', cgm = Some \<lparr>entries = Map.empty, cttl = 0, is_closed = False\<rparr>, ttl = 0\<rparr>
     ''A'' = Inr [''k1 '' \<mapsto> ''v1'', ''k2 '' \<mapsto> ''v2'']"
    by (simp add: lookupSection_def parseConfigFile_def
        parse_lines_Cons c1 c2 c3 c4 c5 store_def DefaultSectionName_def)
  then have "fst (Section [''f'' \<mapsto> [''[A]'', ''k1 = v1'', ''k2 = v2'', ''[B]'', ''k3 = v3'']] 0
     \<lparr>pathname = ''f'', cgm = Some \<lparr>entries = Map.empty, cttl = 0, is_closed = False\<rparr>, ttl = 0\<rparr>
     ''A'') = Inr [''k1 '' \<mapsto> ''v1'', ''k2 '' \<mapsto> ''v2'']"
    by (simp add: Section_def LoadStore_def Load_def)
  with new loader show ?thesis by simp
qed

subsection \<open>C7: the TTL option\<close>

text \<open>
  Claim C7. With a duration that is zero or negative, the setter \<^const>\<open>TTL\<close> fails on every
  Config, so \<^const>\<open>New\<close> with that setter among its setters returns an error and no Config;
  the error is the one of \<^const>\<open>TTL\<close> when the setters before it succeed. With a positive
  duration the setter succeeds and sets the field, and \<^const>\<open>New\<close> with that one setter
  returns a Config with that time-to-live, for itself and for its cache.
\<close>

theorem ttl_option:
  "(sint d \<le> 0 \<longrightarrow>
      TTL d c = Inl TtlNotPositive \<and>
      (\<forall>path setters. TTL d \<in> set setters \<longrightarrow> (\<exists>err. New path setters = Inl err)) \<and>
      (\<forall>path pre c1 post.
         apply_setters \<lparr>pathname = path, cgm = None, ttl = 0\<rparr> pre = Inr c1 \<longrightarrow>
         New path (pre @ TTL d # post) = Inl TtlNotPositive)) \<and>
   (0 < sint d \<longrightarrow>
      TTL d c = Inr (c\<lparr>ttl := d\<rparr>) \<and>
      (\<forall>path. New path [TTL d] =
         Inr \<lparr>pathname = path,
           cgm = Some \<lparr>entries = Map.empty, cttl = sint d, is_closed = False\<rparr>, ttl = d\<rparr>))"
proof (intro conjI allI impI)
  assume neg: "sint d \<le> 0"
  then show "TTL d c = Inl TtlNotPositive" by (simp add: TTL_def)
  show "\<exists>err. New path setters = Inl err" if "TTL d \<in> set setters" for path setters
  proof -
    have "\<exists>err. TTL d c' = Inl err" for c' using neg by (simp add: TTL_def)
    from apply_setters_fails [OF that this, of "\<lparr>pathname = path, cgm = None, ttl = 0\<rparr>"]
    show ?thesis by (auto simp: New_def)
  qed
  show "New path (pre @ TTL d # post) = Inl TtlNotPositive"
    if "apply_setters \<lparr>pathname = path, cgm = None, ttl = 0\<rparr> pre = Inr c1" for path pre c1 post
    using that neg by (simp add: New_def apply_setters_append TTL_def)
next
  assume pos: "0 < sint d"
  then show "TTL d c = Inr (c\<lparr>ttl := d\<rparr>)" by (simp add: TTL_def)
  show "New path [TTL d] =
      Inr \<lparr>pathname = path,
        cgm = Some \<lparr>entries = Map.empty, cttl = sint d, is_closed = False\<rparr>, ttl = d\<rparr>" for path
    using pos by (simp add: New_def TTL_def NewSyncAtomicMap_def)
qed

text \<open>The durations 0, -1 and 5.\<close>

theorem ttl_option_witness:
  "New ''f'' [TTL 0] = Inl TtlNotPositive \<and>
   New ''f'' [TTL (- 1)] = Inl TtlNotPositive \<and>
   New ''f'' [TTL 5] =
     Inr \<lparr>pathname = ''f'', cgm = Some \<lparr>entries = Map.empty, cttl = 5, is_closed = False\<rparr>,
       ttl = 5\<rparr>"
proof -
  let ?c = "\<lparr>pathname = ''f'', cgm = None, ttl = 0\<rparr>"
  have z: "sint (0 :: 64 word) \<le> 0" by simp
  have m: "sint (- 1 :: 64 word) \<le> 0" by simp
  have p: "0 < sint (5 :: 64 word)" by simp
  have five: "sint (5 :: 64 word) = 5" by simp
  have start: "apply_setters ?c [] = Inr ?c" by simp
  from ttl_option [of 0 ?c, THEN conjunct1, rule_format, OF z]
  have "\<forall>path pre c1 post.
         apply_setters \<lparr>pathname = path, cgm = None, ttl = 0\<rparr> pre = Inr c1 \<longrightarrow>
         New path (pre @ TTL 0 # post) = Inl TtlNotPositive"
    by (elim conjE)
  from this [rule_format, OF start, of "[]"] have a: "New ''f'' [TTL 0] = Inl TtlNotPositive"
    by simp
  from ttl_option [of "- 1" ?c, THEN conjunct1, rule_format, OF m]
  have "\<forall>path pre c1 post.
         apply_setters \<lparr>pathname = path, cgm = None, ttl = 0\<rparr> pre = Inr c1 \<longrightarrow>
         New path (pre @ TTL (- 1) # post) = Inl TtlNotPositive"
    by (elim conjE)
  from this [rule_format, OF start, of "[]"] have b: "New ''f'' [TTL (- 1)] = Inl TtlNotPositive"
    by simp
  from ttl_option [of 5 ?c, THEN conjunct2, rule_format, OF p]
  have "\<forall>path. New path [TTL 5] =
         Inr \<lparr>pathname = path,
           cgm = Some \<lparr>entries = Map.empty, cttl = sint (5 :: 64 word), is_closed = False\<rparr>,
           ttl = 5\<rparr>"
    by (elim conjE)
  from this [rule_format, of "''f''"] five a b show ?thesis by simp
qed

end
